theory Spec2Isabelle
  imports Complex_Main
begin

unbundle bit_operations_syntax

section \<open>The environment of a Debouncer\<close>

text \<open>
  \<^verbatim>\<open>debouncer.py\<close> reads two things from outside: the clock (\<^verbatim>\<open>time.monotonic()\<close>) and the
  raw sample source \<^verbatim>\<open>self.f\<close> (the predicate handed to the constructor, or the closure
  \<^verbatim>\<open>lambda : p.value\<close> over the pin that \<^verbatim>\<open>digitalio\<close> configures). Both are zero-argument
  calls whose answer may differ from call to call. The environment is therefore a pair of
  answer sequences together with the number of answers already handed out: the k-th call of
  the clock returns \<open>clock w k\<close>, the k-th call of the sample source returns \<open>pin w k\<close>.
  A clock reading is the real number that the Python float denotes, a raw sample is a
  boolean.
\<close>

record world =
  clock :: "nat \<Rightarrow> real"
  clock_reads :: nat
  pin :: "nat \<Rightarrow> bool"
  pin_reads :: nat

definition time_monotonic :: "world \<Rightarrow> real \<times> world" where
  "time_monotonic w = (clock w (clock_reads w), w\<lparr>clock_reads := Suc (clock_reads w)\<rparr>)"

definition self_f :: "world \<Rightarrow> bool \<times> world" where
  "self_f w = (pin w (pin_reads w), w\<lparr>pin_reads := Suc (pin_reads w)\<rparr>)"

section \<open>The Debouncer object\<close>

text \<open>
  The instance attributes: the packed flag integer \<^verbatim>\<open>state\<close> (a Python int, unbounded),
  \<^verbatim>\<open>previous_time\<close> and \<^verbatim>\<open>interval\<close>.
\<close>

record debouncer =
  state :: int
  previous_time :: real
  interval :: real

definition DEBOUNCED_STATE :: int where "DEBOUNCED_STATE = 1"
definition UNSTABLE_STATE :: int where "UNSTABLE_STATE = 2"
definition CHANGED_STATE :: int where "CHANGED_STATE = 4"

definition set_state :: "int \<Rightarrow> debouncer \<Rightarrow> debouncer" where
  "set_state bits self = self\<lparr>state := state self OR bits\<rparr>"

definition unset_state :: "int \<Rightarrow> debouncer \<Rightarrow> debouncer" where
  "unset_state bits self = self\<lparr>state := state self AND NOT bits\<rparr>"

definition toggle_state :: "int \<Rightarrow> debouncer \<Rightarrow> debouncer" where
  "toggle_state bits self = self\<lparr>state := state self XOR bits\<rparr>"

definition get_state :: "int \<Rightarrow> debouncer \<Rightarrow> bool" where
  "get_state bits self = (state self AND bits \<noteq> 0)"

text \<open>
  \<^verbatim>\<open>__init__\<close>: the flags start at 0, the source is sampled once and a true sample sets the
  debounced and the unstable flag; \<^verbatim>\<open>previous_time\<close> starts at 0; an interval that is
  \<^verbatim>\<open>None\<close> (or omitted) becomes 0.010.
\<close>

definition Debouncer :: "real option \<Rightarrow> world \<Rightarrow> debouncer \<times> world" where
  "Debouncer interval_arg w =
     (let self = \<lparr>state = 0, previous_time = 0, interval = 0\<rparr>;
          (sample, w) = self_f w;
          self = (if sample then set_state (DEBOUNCED_STATE OR UNSTABLE_STATE) self else self);
          self = self\<lparr>previous_time := 0\<rparr>;
          self = (case interval_arg of
                    None \<Rightarrow> self\<lparr>interval := 0.010\<rparr>
                  | Some i \<Rightarrow> self\<lparr>interval := i\<rparr>)
      in (self, w))"

text \<open>
  \<^verbatim>\<open>update\<close>: one clock reading, the changed flag cleared, one raw sample, then the filter.
  The elapsed time \<^verbatim>\<open>now - self.previous_time\<close> is a subtraction of Python floats, which
  rounds its result. The subtraction is the parameter \<open>fsub\<close>: any function on the readings,
  the exact subtraction and a correctly rounded one included. The comparison with the
  interval is exact, as it is on floats.
\<close>

definition update :: "(real \<Rightarrow> real \<Rightarrow> real) \<Rightarrow> debouncer \<times> world \<Rightarrow> debouncer \<times> world" where
  "update fsub sw =
     (let (self, w) = sw;
          (now, w) = time_monotonic w;
          self = unset_state CHANGED_STATE self;
          (current_state, w) = self_f w
      in if current_state \<noteq> get_state UNSTABLE_STATE self then
           (toggle_state UNSTABLE_STATE (self\<lparr>previous_time := now\<rparr>), w)
         else if fsub now (previous_time self) \<ge> interval self then
           (if current_state \<noteq> get_state DEBOUNCED_STATE self then
              (set_state CHANGED_STATE
                 (toggle_state DEBOUNCED_STATE (self\<lparr>previous_time := now\<rparr>)), w)
            else (self, w))
         else (self, w))"

definition "value" :: "debouncer \<Rightarrow> bool" where
  "value self = get_state DEBOUNCED_STATE self"

definition rose :: "debouncer \<Rightarrow> bool" where
  "rose self = (get_state DEBOUNCED_STATE self \<and> get_state CHANGED_STATE self)"

definition fell :: "debouncer \<Rightarrow> bool" where
  "fell self = ((\<not> get_state DEBOUNCED_STATE self) \<and> get_state CHANGED_STATE self)"

text \<open>A polling loop: \<open>updates fsub n\<close> is \<open>n\<close> calls of \<^verbatim>\<open>update\<close> in a row.\<close>

fun updates :: "(real \<Rightarrow> real \<Rightarrow> real) \<Rightarrow> nat \<Rightarrow> debouncer \<times> world \<Rightarrow> debouncer \<times> world" where
  "updates fsub 0 sw = sw"
| "updates fsub (Suc n) sw = update fsub (updates fsub n sw)"

section \<open>The three flags as booleans\<close>

text \<open>
  The specification speaks of three boolean fields; in the code each is one bit of
  \<^verbatim>\<open>state\<close>: bit 0 (mask 0x01) the debounced value, bit 1 (mask 0x02) the last raw sample,
  bit 2 (mask 0x04) the changed flag.
\<close>

definition debounced_state :: "debouncer \<Rightarrow> bool" where
  "debounced_state self = bit (state self) 0"

definition unstable_state :: "debouncer \<Rightarrow> bool" where
  "unstable_state self = bit (state self) 1"

definition changed_state :: "debouncer \<Rightarrow> bool" where
  "changed_state self = bit (state self) 2"

text \<open>What the coming \<open>k\<close>-th call of \<^verbatim>\<open>update\<close> (counted from 0) will read.\<close>

definition now_at :: "world \<Rightarrow> nat \<Rightarrow> real" where
  "now_at w k = clock w (clock_reads w + k)"

definition sample_at :: "world \<Rightarrow> nat \<Rightarrow> bool" where
  "sample_at w k = pin w (pin_reads w + k)"

section \<open>Concrete environments and states\<close>

text \<open>
  \<open>w_high\<close>: the raw input reads true at every call and the clock reads 5 s.
  \<open>d_fallen\<close>: debounced true, last raw sample false, changed flag set.
  \<open>d_pending\<close>: debounced false, last raw sample true, timer started at 1 s, interval 10 ms.
  \<open>d_pending_zero\<close>: the same flags with interval 0 and the timer started at 5 s.
\<close>

definition w_high :: world where
  "w_high = \<lparr>clock = (\<lambda>k. 5), clock_reads = 0, pin = (\<lambda>k. True), pin_reads = 0\<rparr>"

definition d_fallen :: debouncer where
  "d_fallen = \<lparr>state = 5, previous_time = 1, interval = 1 / 100\<rparr>"

definition d_pending :: debouncer where
  "d_pending = \<lparr>state = 2, previous_time = 1, interval = 1 / 100\<rparr>"

definition d_pending_zero :: debouncer where
  "d_pending_zero = \<lparr>state = 2, previous_time = 5, interval = 0\<rparr>"

text \<open>
  \<open>w_rise\<close>: the raw input reads false once (at construction) and true from then on; the
  clock reads 1 s at the first \<^verbatim>\<open>update\<close> and 1/128 s (about 7.8 ms) more at each later one.
  \<open>w_bounce\<close>: the raw input alternates at every call, starting with true, and the clock
  advances by 1/1024 s (about 1 ms) per call.
  All clock readings and timer values of these environments and states are binary fractions
  of a few digits, on which the subtraction of floats is exact; the concrete runs below
  therefore take the exact subtraction for \<open>fsub\<close>.
\<close>

definition w_rise :: world where
  "w_rise = \<lparr>clock = (\<lambda>k. 1 + real k / 128), clock_reads = 0, pin = (\<lambda>k. 0 < k), pin_reads = 0\<rparr>"

definition w_bounce :: world where
  "w_bounce = \<lparr>clock = (\<lambda>k. real k / 1024), clock_reads = 0, pin = (\<lambda>k. even k), pin_reads = 0\<rparr>"

section \<open>Reading the packed flags\<close>

lemma get_DEBOUNCED: "get_state DEBOUNCED_STATE self = debounced_state self"
  using and_exp_eq_0_iff_not_bit [of "state self" 0]
  by (simp add: get_state_def DEBOUNCED_STATE_def debounced_state_def)

lemma get_UNSTABLE: "get_state UNSTABLE_STATE self = unstable_state self"
  using and_exp_eq_0_iff_not_bit [of "state self" 1]
  by (simp add: get_state_def UNSTABLE_STATE_def unstable_state_def)

lemma get_CHANGED: "get_state CHANGED_STATE self = changed_state self"
  using and_exp_eq_0_iff_not_bit [of "state self" 2]
  by (simp add: get_state_def CHANGED_STATE_def changed_state_def)

lemmas get_flags = get_DEBOUNCED get_UNSTABLE get_CHANGED

lemma unset_CHANGED_flags:
  "debounced_state (unset_state CHANGED_STATE self) = debounced_state self"
  "unstable_state (unset_state CHANGED_STATE self) = unstable_state self"
  "changed_state (unset_state CHANGED_STATE self) = False"
  "previous_time (unset_state CHANGED_STATE self) = previous_time self"
  "interval (unset_state CHANGED_STATE self) = interval self"
  by (simp_all add: unset_state_def CHANGED_STATE_def debounced_state_def
      unstable_state_def changed_state_def bit_and_iff bit_not_iff)

lemma toggle_UNSTABLE_flags:
  "debounced_state (toggle_state UNSTABLE_STATE self) = debounced_state self"
  "unstable_state (toggle_state UNSTABLE_STATE self) = (\<not> unstable_state self)"
  "changed_state (toggle_state UNSTABLE_STATE self) = changed_state self"
  "previous_time (toggle_state UNSTABLE_STATE self) = previous_time self"
  "interval (toggle_state UNSTABLE_STATE self) = interval self"
  by (simp_all add: toggle_state_def UNSTABLE_STATE_def debounced_state_def
      unstable_state_def changed_state_def bit_xor_iff)

lemma toggle_DEBOUNCED_flags:
  "debounced_state (toggle_state DEBOUNCED_STATE self) = (\<not> debounced_state self)"
  "unstable_state (toggle_state DEBOUNCED_STATE self) = unstable_state self"
  "changed_state (toggle_state DEBOUNCED_STATE self) = changed_state self"
  "previous_time (toggle_state DEBOUNCED_STATE self) = previous_time self"
  "interval (toggle_state DEBOUNCED_STATE self) = interval self"
  by (simp_all add: toggle_state_def DEBOUNCED_STATE_def debounced_state_def
      unstable_state_def changed_state_def bit_xor_iff)

lemma set_CHANGED_flags:
  "debounced_state (set_state CHANGED_STATE self) = debounced_state self"
  "unstable_state (set_state CHANGED_STATE self) = unstable_state self"
  "changed_state (set_state CHANGED_STATE self) = True"
  "previous_time (set_state CHANGED_STATE self) = previous_time self"
  "interval (set_state CHANGED_STATE self) = interval self"
  by (simp_all add: set_state_def CHANGED_STATE_def debounced_state_def
      unstable_state_def changed_state_def bit_or_iff)

lemma previous_time_update_flags:
  "debounced_state (self\<lparr>previous_time := t\<rparr>) = debounced_state self"
  "unstable_state (self\<lparr>previous_time := t\<rparr>) = unstable_state self"
  "changed_state (self\<lparr>previous_time := t\<rparr>) = changed_state self"
  by (simp_all add: debounced_state_def unstable_state_def changed_state_def)

lemmas flag_simps = get_flags unset_CHANGED_flags toggle_UNSTABLE_flags
  toggle_DEBOUNCED_flags set_CHANGED_flags previous_time_update_flags

lemmas ex_defs = w_high_def d_fallen_def d_pending_def d_pending_zero_def
  sample_at_def now_at_def unstable_state_def debounced_state_def changed_state_def

section \<open>One call of update, flag by flag\<close>

lemma update_world:
  "snd (update fsub (self, w)) = w\<lparr>clock_reads := Suc (clock_reads w), pin_reads := Suc (pin_reads w)\<rparr>"
  by (simp add: update_def time_monotonic_def self_f_def Let_def)

lemma update_interval: "interval (fst (update fsub (self, w))) = interval self"
  by (simp add: update_def time_monotonic_def self_f_def Let_def flag_simps)

lemma update_unstable: "unstable_state (fst (update fsub (self, w))) = sample_at w 0"
  by (auto simp add: update_def time_monotonic_def self_f_def Let_def flag_simps sample_at_def)

lemma update_debounced:
  "debounced_state (fst (update fsub (self, w))) =
     (if sample_at w 0 = unstable_state self \<and> interval self \<le> fsub (now_at w 0) (previous_time self)
      then sample_at w 0 else debounced_state self)"
  by (auto simp add: update_def time_monotonic_def self_f_def Let_def flag_simps sample_at_def now_at_def)

lemma update_changed:
  "changed_state (fst (update fsub (self, w))) =
     (sample_at w 0 = unstable_state self \<and> interval self \<le> fsub (now_at w 0) (previous_time self)
      \<and> sample_at w 0 \<noteq> debounced_state self)"
  by (auto simp add: update_def time_monotonic_def self_f_def Let_def flag_simps sample_at_def now_at_def)

lemma update_previous_time:
  "previous_time (fst (update fsub (self, w))) =
     (if sample_at w 0 \<noteq> unstable_state self \<or>
         (interval self \<le> fsub (now_at w 0) (previous_time self) \<and> sample_at w 0 \<noteq> debounced_state self)
      then now_at w 0 else previous_time self)"
  by (auto simp add: update_def time_monotonic_def self_f_def Let_def flag_simps sample_at_def now_at_def)

lemma updates_world:
  "snd (updates fsub n (self, w)) = w\<lparr>clock_reads := clock_reads w + n, pin_reads := pin_reads w + n\<rparr>"
proof (induction n)
  case 0
  show ?case by simp
next
  case (Suc n)
  obtain d' w' where eq: "updates fsub n (self, w) = (d', w')" by (cases "updates fsub n (self, w)")
  with Suc have "w' = w\<lparr>clock_reads := clock_reads w + n, pin_reads := pin_reads w + n\<rparr>" by simp
  then show ?case using update_world [of fsub d' w'] by (simp add: eq)
qed

lemma set_unset_CHANGED:
  "unset_state CHANGED_STATE (set_state CHANGED_STATE self) = unset_state CHANGED_STATE self"
proof -
  have "(a OR b) AND NOT b = a AND NOT b" for a b :: int
    by (rule bit_eqI) (auto simp add: bit_and_iff bit_or_iff bit_not_iff)
  then show ?thesis by (simp add: unset_state_def set_state_def)
qed

lemma update_unset_first: "update fsub (unset_state CHANGED_STATE self, w) = update fsub (self, w)"
proof -
  have "unset_state CHANGED_STATE (unset_state CHANGED_STATE self) = unset_state CHANGED_STATE self"
    by (simp add: unset_state_def and.assoc)
  then show ?thesis by (simp add: update_def Let_def split_def)
qed

section \<open>Runs of update calls\<close>

lemma updates_Suc:
  "updates fsub (Suc m) (self, w) =
     update fsub (fst (updates fsub m (self, w)),
             w\<lparr>clock_reads := clock_reads w + m, pin_reads := pin_reads w + m\<rparr>)"
proof -
  have "updates fsub m (self, w) = (fst (updates fsub m (self, w)), snd (updates fsub m (self, w)))" by simp
  then show ?thesis by (simp add: updates_world)
qed

lemma shifted_reads:
  "sample_at (w\<lparr>clock_reads := clock_reads w + m, pin_reads := pin_reads w + m\<rparr>) 0 = sample_at w m"
  "now_at (w\<lparr>clock_reads := clock_reads w + m, pin_reads := pin_reads w + m\<rparr>) 0 = now_at w m"
  by (simp_all add: sample_at_def now_at_def)

lemma step_interval:
  "interval (fst (updates fsub m (self, w))) = interval self"
proof (induction m)
  case 0
  show ?case by simp
next
  case (Suc m)
  then show ?case by (simp add: updates_Suc update_interval del: updates.simps)
qed

lemma step_unstable:
  "unstable_state (fst (updates fsub (Suc m) (self, w))) = sample_at w m"
  by (simp add: updates_Suc update_unstable shifted_reads del: updates.simps)

lemma step_debounced:
  "debounced_state (fst (updates fsub (Suc m) (self, w))) =
     (if sample_at w m = unstable_state (fst (updates fsub m (self, w)))
         \<and> interval self \<le> fsub (now_at w m) (previous_time (fst (updates fsub m (self, w))))
      then sample_at w m else debounced_state (fst (updates fsub m (self, w))))"
  by (simp add: updates_Suc update_debounced shifted_reads step_interval del: updates.simps)

lemma step_changed:
  "changed_state (fst (updates fsub (Suc m) (self, w))) =
     (sample_at w m = unstable_state (fst (updates fsub m (self, w)))
      \<and> interval self \<le> fsub (now_at w m) (previous_time (fst (updates fsub m (self, w))))
      \<and> sample_at w m \<noteq> debounced_state (fst (updates fsub m (self, w))))"
  by (simp add: updates_Suc update_changed shifted_reads step_interval del: updates.simps)

lemma step_previous_time:
  "previous_time (fst (updates fsub (Suc m) (self, w))) =
     (if sample_at w m \<noteq> unstable_state (fst (updates fsub m (self, w))) \<or>
         (interval self \<le> fsub (now_at w m) (previous_time (fst (updates fsub m (self, w))))
          \<and> sample_at w m \<noteq> debounced_state (fst (updates fsub m (self, w))))
      then now_at w m else previous_time (fst (updates fsub m (self, w))))"
  by (simp add: updates_Suc update_previous_time shifted_reads step_interval del: updates.simps) blast

lemma Debouncer_fields:
  "previous_time (fst (Debouncer i w)) = 0"
  "interval (fst (Debouncer i w)) = (case i of None \<Rightarrow> 1 / 100 | Some x \<Rightarrow> x)"
  "snd (Debouncer i w) = w\<lparr>pin_reads := Suc (pin_reads w)\<rparr>"
  by (simp_all add: Debouncer_def self_f_def set_state_def Let_def split: option.splits)

lemma previous_time_not_ahead:
  assumes mono: "\<forall>k. clock w k \<le> clock w (Suc k)"
    and start: "previous_time self \<le> now_at w 0"
  shows "previous_time (fst (updates fsub n (self, w))) \<le> now_at w n"
proof (induction n)
  case 0
  show ?case using start by simp
next
  case (Suc n)
  have "now_at w n \<le> now_at w (Suc n)" using mono by (simp add: now_at_def)
  with Suc show ?case
    unfolding step_previous_time by (auto simp del: updates.simps)
qed

lemmas run_defs = Debouncer_def update_def time_monotonic_def self_f_def
  unset_state_def toggle_state_def set_state_def get_state_def
  DEBOUNCED_STATE_def UNSTABLE_STATE_def CHANGED_STATE_def
  rose_def fell_def numeral_2_eq_2 numeral_3_eq_3

section \<open>The claims\<close>

text \<open>
  Claim C1 as the specification states it says that the first \<^verbatim>\<open>update\<close> call at which the
  elapsed time since the change has reached the interval flips the debounced value. With
  interval 0 that is already the call that first reads the changed sample (elapsed time 0,
  whatever the subtraction),
  and that call does not flip: a Debouncer constructed on a low input with interval 0 still
  reports low, with \<^verbatim>\<open>rose\<close> false, after the first call that reads high; \<^verbatim>\<open>rose\<close> comes one
  call later.
\<close>

theorem settle_acceptance_zero_interval_counterexample:
  "unstable_state (fst (Debouncer (Some 0) w_rise)) = debounced_state (fst (Debouncer (Some 0) w_rise))
 \<and> sample_at (snd (Debouncer (Some 0) w_rise)) 0 = (\<not> debounced_state (fst (Debouncer (Some 0) w_rise)))
 \<and> interval (fst (Debouncer (Some 0) w_rise))
      \<le> now_at (snd (Debouncer (Some 0) w_rise)) 0 - now_at (snd (Debouncer (Some 0) w_rise)) 0
 \<and> debounced_state (fst (update (-) (Debouncer (Some 0) w_rise)))
      = debounced_state (fst (Debouncer (Some 0) w_rise))
 \<and> \<not> rose (fst (update (-) (Debouncer (Some 0) w_rise)))
 \<and> rose (fst (update (-) (update (-) (Debouncer (Some 0) w_rise))))"
  by (simp add: run_defs w_rise_def sample_at_def now_at_def unstable_state_def debounced_state_def)

text \<open>
  Claim C1 (settle acceptance), as amended. Start in a settled state (unstable flag equal to
  the debounced value) and let every coming raw sample be the opposite value. The call that
  first reads the changed sample (call 0) only restarts the timer: it never flips the
  debounced value, whatever the interval. Elapsed time is what \<^verbatim>\<open>update\<close> computes: the
  float difference (\<open>fsub\<close>) between the clock reading of the call and the clock reading of
  that first call. Every later call made while the elapsed time is below the interval leaves the
  debounced value unchanged with \<^verbatim>\<open>rose\<close> and \<^verbatim>\<open>fell\<close> false; the first later call \<open>m\<close> at
  which the elapsed time reaches the interval flips the debounced value, with \<^verbatim>\<open>rose\<close> true for
  a low-to-high and \<^verbatim>\<open>fell\<close> true for a high-to-low transition on exactly that call; on all
  subsequent calls the new value stays and \<^verbatim>\<open>rose\<close> and \<^verbatim>\<open>fell\<close> are false.
\<close>

theorem settle_acceptance_after_detection:
  assumes settled: "unstable_state self = debounced_state self"
    and steady: "\<forall>k\<le>n. sample_at w k = (\<not> debounced_state self)"
    and m: "0 < m" "m \<le> n"
    and early: "\<forall>k. 0 < k \<and> k < m \<longrightarrow> fsub (now_at w k) (now_at w 0) < interval self"
    and reach: "interval self \<le> fsub (now_at w m) (now_at w 0)"
  shows "(\<forall>k<m. debounced_state (fst (updates fsub (Suc k) (self, w))) = debounced_state self
              \<and> \<not> rose (fst (updates fsub (Suc k) (self, w)))
              \<and> \<not> fell (fst (updates fsub (Suc k) (self, w))))
       \<and> debounced_state (fst (updates fsub (Suc m) (self, w))) = (\<not> debounced_state self)
       \<and> rose (fst (updates fsub (Suc m) (self, w))) = (\<not> debounced_state self)
       \<and> fell (fst (updates fsub (Suc m) (self, w))) = debounced_state self
       \<and> (\<forall>k. m < k \<and> k \<le> n \<longrightarrow>
              debounced_state (fst (updates fsub (Suc k) (self, w))) = (\<not> debounced_state self)
              \<and> \<not> rose (fst (updates fsub (Suc k) (self, w)))
              \<and> \<not> fell (fst (updates fsub (Suc k) (self, w))))"
proof -
  let ?d = "\<lambda>j. fst (updates fsub j (self, w))"
  let ?old = "debounced_state self"
  have d0: "?d 0 = self" by simp
  have waiting: "debounced_state (?d (Suc k)) = ?old \<and> unstable_state (?d (Suc k)) = (\<not> ?old)
        \<and> previous_time (?d (Suc k)) = now_at w 0 \<and> \<not> changed_state (?d (Suc k))"
    if "k < m" for k
    using that
  proof (induction k)
    case 0
    have "sample_at w 0 \<noteq> unstable_state (?d 0)" using steady settled by simp
    then show ?case
      unfolding step_debounced step_unstable step_previous_time step_changed
      using steady settled by (simp del: updates.simps add: d0)
  next
    case (Suc k)
    then have IH: "debounced_state (?d (Suc k)) = ?old" "unstable_state (?d (Suc k)) = (\<not> ?old)"
        "previous_time (?d (Suc k)) = now_at w 0" by simp_all
    have sk: "sample_at w (Suc k) = (\<not> ?old)" using steady Suc.prems m by simp
    have "fsub (now_at w (Suc k)) (now_at w 0) < interval self" using early Suc.prems by simp
    then have late: "\<not> interval self \<le> fsub (now_at w (Suc k)) (now_at w 0)" by simp
    show ?case
      unfolding step_debounced [of fsub "Suc k"] step_unstable [of fsub "Suc k"]
        step_previous_time [of fsub "Suc k"] step_changed [of fsub "Suc k"]
      using IH sk late by (simp del: updates.simps)
  qed
  obtain m' where m': "m = Suc m'" using m(1) by (cases m) auto
  have before: "debounced_state (?d m) = ?old" "unstable_state (?d m) = (\<not> ?old)"
        "previous_time (?d m) = now_at w 0"
    using waiting [of m'] by (simp_all add: m' del: updates.simps)
  have sm: "sample_at w m = (\<not> ?old)" using steady m by simp
  have flip: "debounced_state (?d (Suc m)) = (\<not> ?old)" "changed_state (?d (Suc m))"
    "unstable_state (?d (Suc m)) = (\<not> ?old)"
    unfolding step_debounced step_changed step_unstable
    using before sm reach by (simp_all del: updates.simps)
  have after: "debounced_state (?d (Suc k)) = (\<not> ?old) \<and> unstable_state (?d (Suc k)) = (\<not> ?old)
        \<and> (m < k \<longrightarrow> \<not> changed_state (?d (Suc k)))"
    if "m \<le> k" "k \<le> n" for k
    using that
  proof (induction k)
    case 0
    then show ?case using m by simp
  next
    case (Suc k)
    show ?case
    proof (cases "m = Suc k")
      case True
      then show ?thesis using flip by (simp del: updates.simps)
    next
      case False
      then have "m \<le> k" "k \<le> n" using Suc.prems by simp_all
      then have IH: "debounced_state (?d (Suc k)) = (\<not> ?old)" "unstable_state (?d (Suc k)) = (\<not> ?old)"
        using Suc.IH by simp_all
      have sk: "sample_at w (Suc k) = (\<not> ?old)" using steady Suc.prems by simp
      show ?thesis
        unfolding step_debounced [of fsub "Suc k"] step_unstable [of fsub "Suc k"]
          step_changed [of fsub "Suc k"]
        using IH sk by (simp del: updates.simps)
    qed
  qed
  have one: "\<forall>k<m. debounced_state (?d (Suc k)) = ?old \<and> \<not> rose (?d (Suc k)) \<and> \<not> fell (?d (Suc k))"
    using waiting by (simp add: rose_def fell_def get_flags del: updates.simps)
  have two: "debounced_state (?d (Suc m)) = (\<not> ?old) \<and> rose (?d (Suc m)) = (\<not> ?old)
      \<and> fell (?d (Suc m)) = ?old"
    using flip by (simp add: rose_def fell_def get_flags del: updates.simps)
  have three: "\<forall>k. m < k \<and> k \<le> n \<longrightarrow> debounced_state (?d (Suc k)) = (\<not> ?old)
      \<and> \<not> rose (?d (Suc k)) \<and> \<not> fell (?d (Suc k))"
    using after by (simp add: rose_def fell_def get_flags del: updates.simps)
  from one two three show ?thesis by blast
qed

theorem settle_acceptance_after_detection_witness:
  "unstable_state (fst (Debouncer None w_rise)) = debounced_state (fst (Debouncer None w_rise))
 \<and> sample_at (snd (Debouncer None w_rise)) 0 = (\<not> debounced_state (fst (Debouncer None w_rise)))
 \<and> sample_at (snd (Debouncer None w_rise)) 1 = (\<not> debounced_state (fst (Debouncer None w_rise)))
 \<and> sample_at (snd (Debouncer None w_rise)) 2 = (\<not> debounced_state (fst (Debouncer None w_rise)))
 \<and> sample_at (snd (Debouncer None w_rise)) 3 = (\<not> debounced_state (fst (Debouncer None w_rise)))
 \<and> now_at (snd (Debouncer None w_rise)) 1 - now_at (snd (Debouncer None w_rise)) 0
      < interval (fst (Debouncer None w_rise))
 \<and> interval (fst (Debouncer None w_rise))
      \<le> now_at (snd (Debouncer None w_rise)) 2 - now_at (snd (Debouncer None w_rise)) 0
 \<and> \<not> debounced_state (fst (updates (-) 1 (Debouncer None w_rise)))
 \<and> \<not> debounced_state (fst (updates (-) 2 (Debouncer None w_rise)))
 \<and> debounced_state (fst (updates (-) 3 (Debouncer None w_rise)))
 \<and> rose (fst (updates (-) 3 (Debouncer None w_rise)))
 \<and> \<not> fell (fst (updates (-) 3 (Debouncer None w_rise)))
 \<and> debounced_state (fst (updates (-) 4 (Debouncer None w_rise)))
 \<and> \<not> rose (fst (updates (-) 4 (Debouncer None w_rise)))
 \<and> \<not> fell (fst (updates (-) 4 (Debouncer None w_rise)))"
proof -
  let ?d = "fst (Debouncer None w_rise)"
  let ?w = "snd (Debouncer None w_rise)"
  have dw: "Debouncer None w_rise = (?d, ?w)" by simp
  have d: "?d = \<lparr>state = 0, previous_time = 0, interval = 1 / 100\<rparr>"
    by (simp add: Debouncer_def self_f_def w_rise_def)
  have w: "?w = w_rise\<lparr>pin_reads := 1\<rparr>"
    by (simp add: Debouncer_def self_f_def w_rise_def)
  have settled: "unstable_state ?d = debounced_state ?d"
    by (simp add: d unstable_state_def debounced_state_def)
  have steady: "\<forall>k\<le>3. sample_at ?w k = (\<not> debounced_state ?d)"
    unfolding d w by (simp add: sample_at_def debounced_state_def w_rise_def)
  have early: "\<forall>k. 0 < k \<and> k < 2 \<longrightarrow> now_at ?w k - now_at ?w 0 < interval ?d"
  proof (intro allI impI)
    fix k :: nat assume "0 < k \<and> k < 2"
    then have "k = 1" by simp
    then show "now_at ?w k - now_at ?w 0 < interval ?d"
      unfolding d w by (simp add: now_at_def w_rise_def)
  qed
  have reach: "interval ?d \<le> now_at ?w 2 - now_at ?w 0"
    unfolding d w by (simp add: now_at_def w_rise_def)
  have T: "(\<forall>k<2. debounced_state (fst (updates (-) (Suc k) (?d, ?w))) = debounced_state ?d
              \<and> \<not> rose (fst (updates (-) (Suc k) (?d, ?w)))
              \<and> \<not> fell (fst (updates (-) (Suc k) (?d, ?w))))
       \<and> debounced_state (fst (updates (-) (Suc 2) (?d, ?w))) = (\<not> debounced_state ?d)
       \<and> rose (fst (updates (-) (Suc 2) (?d, ?w))) = (\<not> debounced_state ?d)
       \<and> fell (fst (updates (-) (Suc 2) (?d, ?w))) = debounced_state ?d
       \<and> (\<forall>k. 2 < k \<and> k \<le> 3 \<longrightarrow>
              debounced_state (fst (updates (-) (Suc k) (?d, ?w))) = (\<not> debounced_state ?d)
              \<and> \<not> rose (fst (updates (-) (Suc k) (?d, ?w)))
              \<and> \<not> fell (fst (updates (-) (Suc k) (?d, ?w))))"
    by (rule settle_acceptance_after_detection [where fsub = "(-)", OF settled steady _ _ early reach]) simp_all
  have old: "\<not> debounced_state ?d" by (simp add: d debounced_state_def)
  have e1: "Suc 0 = 1" "Suc 1 = 2" "Suc 2 = 3" "Suc 3 = 4" by simp_all
  from T have c0: "\<not> debounced_state (fst (updates (-) (Suc 0) (?d, ?w)))"
    and c1: "\<not> debounced_state (fst (updates (-) (Suc 1) (?d, ?w)))"
    using old by (auto simp del: updates.simps)
  from T have c2: "debounced_state (fst (updates (-) (Suc 2) (?d, ?w)))
      \<and> rose (fst (updates (-) (Suc 2) (?d, ?w))) \<and> \<not> fell (fst (updates (-) (Suc 2) (?d, ?w)))"
    using old by (simp del: updates.simps)
  from T have "2 < (3::nat) \<and> (3::nat) \<le> 3 \<longrightarrow>
              debounced_state (fst (updates (-) (Suc 3) (?d, ?w))) = (\<not> debounced_state ?d)
              \<and> \<not> rose (fst (updates (-) (Suc 3) (?d, ?w)))
              \<and> \<not> fell (fst (updates (-) (Suc 3) (?d, ?w)))" by blast
  then have c3: "debounced_state (fst (updates (-) (Suc 3) (?d, ?w)))
      \<and> \<not> rose (fst (updates (-) (Suc 3) (?d, ?w))) \<and> \<not> fell (fst (updates (-) (Suc 3) (?d, ?w)))"
    using old by (simp del: updates.simps)
  have near: "now_at ?w 1 - now_at ?w 0 < interval ?d"
    unfolding d w by (simp add: now_at_def w_rise_def)
  have s0: "sample_at ?w 0 = (\<not> debounced_state ?d)" using steady by simp
  have s1: "sample_at ?w 1 = (\<not> debounced_state ?d)" using steady by simp
  have s2: "sample_at ?w 2 = (\<not> debounced_state ?d)" using steady by simp
  have s3: "sample_at ?w 3 = (\<not> debounced_state ?d)" using steady by simp
  show ?thesis
    using settled s0 s1 s2 s3 near reach c0 c1 c2 c3 unfolding e1 dw [symmetric]
    by (simp del: updates.simps)
qed

text \<open>
  Claim C2 (bounce rejection). Consider \<open>n\<close> calls of \<^verbatim>\<open>update\<close> in which the raw sample never
  holds steady for as long as the interval: for any two calls between which all samples are
  equal, the difference of their clock readings as \<^verbatim>\<open>update\<close> computes it (\<open>fsub\<close>) is below
  the interval (strictly alternating samples are the case where no two
  consecutive samples are equal at all). If the run starts from a settled state, or with a
  sample that differs from the last one seen, the debounced value never changes and \<^verbatim>\<open>rose\<close>
  and \<^verbatim>\<open>fell\<close> are false after every one of these calls.
\<close>

theorem bounce_rejection:
  assumes first: "sample_at w 0 \<noteq> unstable_state self \<or> unstable_state self = debounced_state self"
    and bounce: "\<forall>j k. j < k \<and> k < n \<and> (\<forall>i. j < i \<and> i \<le> k \<longrightarrow> sample_at w i = sample_at w j)
                   \<longrightarrow> fsub (now_at w k) (now_at w j) < interval self"
  shows "\<forall>m\<le>n. debounced_state (fst (updates fsub m (self, w))) = debounced_state self
              \<and> (0 < m \<longrightarrow> \<not> rose (fst (updates fsub m (self, w))) \<and> \<not> fell (fst (updates fsub m (self, w))))"
proof -
  let ?d = "\<lambda>m. fst (updates fsub m (self, w))"
  have inv: "debounced_state (?d m) = debounced_state self
           \<and> (0 < m \<longrightarrow> \<not> changed_state (?d m))
           \<and> (unstable_state (?d m) = debounced_state self
              \<or> (m = 0 \<and> sample_at w 0 \<noteq> unstable_state self)
              \<or> (\<exists>j<m. previous_time (?d m) = now_at w j \<and> unstable_state (?d m) = sample_at w j
                        \<and> (\<forall>i. j < i \<and> i < m \<longrightarrow> sample_at w i = sample_at w j)))"
    if "m \<le> n" for m
    using that
  proof (induction m)
    case 0
    show ?case using first by auto
  next
    case (Suc m)
    then have mn: "m < n" by simp
    from Suc have deb: "debounced_state (?d m) = debounced_state self" by simp
    from Suc have shape: "unstable_state (?d m) = debounced_state self
              \<or> (m = 0 \<and> sample_at w 0 \<noteq> unstable_state self)
              \<or> (\<exists>j<m. previous_time (?d m) = now_at w j \<and> unstable_state (?d m) = sample_at w j
                        \<and> (\<forall>i. j < i \<and> i < m \<longrightarrow> sample_at w i = sample_at w j))" by simp
    have uns: "unstable_state (?d (Suc m)) = sample_at w m" by (rule step_unstable)
    show ?case
    proof (cases "sample_at w m = unstable_state (?d m)")
      case False
      have a: "debounced_state (?d (Suc m)) = debounced_state self"
        using False deb by (simp add: step_debounced del: updates.simps)
      have b: "\<not> changed_state (?d (Suc m))"
        using False by (simp add: step_changed del: updates.simps)
      have c: "previous_time (?d (Suc m)) = now_at w m"
        using False by (simp add: step_previous_time del: updates.simps)
      have "\<exists>j<Suc m. previous_time (?d (Suc m)) = now_at w j \<and> unstable_state (?d (Suc m)) = sample_at w j
                        \<and> (\<forall>i. j < i \<and> i < Suc m \<longrightarrow> sample_at w i = sample_at w j)"
        using c uns by (intro exI [of _ m]) (auto simp del: updates.simps)
      with a b show ?thesis by blast
    next
      case True
      have noflip: "\<not> (interval self \<le> fsub (now_at w m) (previous_time (?d m))
                        \<and> sample_at w m \<noteq> debounced_state (?d m))"
        and keep: "unstable_state (?d m) = debounced_state self
              \<or> (\<exists>j<Suc m. previous_time (?d m) = now_at w j \<and> sample_at w m = sample_at w j
                        \<and> (\<forall>i. j < i \<and> i < Suc m \<longrightarrow> sample_at w i = sample_at w j))"
      proof -
        from shape consider
            (settled) "unstable_state (?d m) = debounced_state self"
          | (start) "m = 0" "sample_at w 0 \<noteq> unstable_state self"
          | (timing) j where "j < m" "previous_time (?d m) = now_at w j"
              "unstable_state (?d m) = sample_at w j"
              "\<forall>i. j < i \<and> i < m \<longrightarrow> sample_at w i = sample_at w j"
          by blast
        then have "\<not> (interval self \<le> fsub (now_at w m) (previous_time (?d m))
                        \<and> sample_at w m \<noteq> debounced_state (?d m))
            \<and> (unstable_state (?d m) = debounced_state self
              \<or> (\<exists>j<Suc m. previous_time (?d m) = now_at w j \<and> sample_at w m = sample_at w j
                        \<and> (\<forall>i. j < i \<and> i < Suc m \<longrightarrow> sample_at w i = sample_at w j)))"
        proof cases
          case settled
          with True deb show ?thesis by simp
        next
          case start
          with True show ?thesis by simp
        next
          case timing
          have same: "sample_at w m = sample_at w j" using True timing(3) by simp
          have run: "\<forall>i. j < i \<and> i \<le> m \<longrightarrow> sample_at w i = sample_at w j"
          proof (intro allI impI)
            fix i assume "j < i \<and> i \<le> m"
            then have "i < m \<or> i = m" by auto
            then show "sample_at w i = sample_at w j"
              using timing(4) same \<open>j < i \<and> i \<le> m\<close> by blast
          qed
          have "fsub (now_at w m) (now_at w j) < interval self"
            using bounce timing(1) mn run by blast
          then have "\<not> interval self \<le> fsub (now_at w m) (previous_time (?d m))"
            using timing(2) by simp
          moreover have "\<exists>j<Suc m. previous_time (?d m) = now_at w j \<and> sample_at w m = sample_at w j
                        \<and> (\<forall>i. j < i \<and> i < Suc m \<longrightarrow> sample_at w i = sample_at w j)"
            using timing(1,2) same run by (intro exI [of _ j]) (auto simp add: less_Suc_eq_le simp del: updates.simps)
          ultimately show ?thesis by blast
        qed
        then show "\<not> (interval self \<le> fsub (now_at w m) (previous_time (?d m))
                        \<and> sample_at w m \<noteq> debounced_state (?d m))"
          and "unstable_state (?d m) = debounced_state self
              \<or> (\<exists>j<Suc m. previous_time (?d m) = now_at w j \<and> sample_at w m = sample_at w j
                        \<and> (\<forall>i. j < i \<and> i < Suc m \<longrightarrow> sample_at w i = sample_at w j))"
          by blast+
      qed
      have a: "debounced_state (?d (Suc m)) = debounced_state self"
        using True noflip deb by (auto simp add: step_debounced simp del: updates.simps)
      have b: "\<not> changed_state (?d (Suc m))"
        using noflip by (simp add: step_changed del: updates.simps)
      have c: "previous_time (?d (Suc m)) = previous_time (?d m)"
        using True noflip by (auto simp add: step_previous_time simp del: updates.simps)
      have "unstable_state (?d (Suc m)) = debounced_state self
              \<or> (\<exists>j<Suc m. previous_time (?d (Suc m)) = now_at w j \<and> unstable_state (?d (Suc m)) = sample_at w j
                        \<and> (\<forall>i. j < i \<and> i < Suc m \<longrightarrow> sample_at w i = sample_at w j))"
        using keep True unfolding c uns by (simp del: updates.simps)
      with a b show ?thesis by blast
    qed
  qed
  show ?thesis
  proof (intro allI impI)
    fix m assume "m \<le> n"
    from inv [OF this] show "debounced_state (?d m) = debounced_state self
              \<and> (0 < m \<longrightarrow> \<not> rose (?d m) \<and> \<not> fell (?d m))"
      by (simp add: rose_def fell_def get_flags del: updates.simps)
  qed
qed

theorem bounce_rejection_witness:
  "sample_at (snd (Debouncer None w_bounce)) 0 \<noteq> unstable_state (fst (Debouncer None w_bounce))
 \<and> sample_at (snd (Debouncer None w_bounce)) 1 \<noteq> sample_at (snd (Debouncer None w_bounce)) 0
 \<and> sample_at (snd (Debouncer None w_bounce)) 2 \<noteq> sample_at (snd (Debouncer None w_bounce)) 1
 \<and> sample_at (snd (Debouncer None w_bounce)) 3 \<noteq> sample_at (snd (Debouncer None w_bounce)) 2
 \<and> now_at (snd (Debouncer None w_bounce)) 3 - now_at (snd (Debouncer None w_bounce)) 0
      < interval (fst (Debouncer None w_bounce))
 \<and> debounced_state (fst (Debouncer None w_bounce))
 \<and> debounced_state (fst (updates (-) 1 (Debouncer None w_bounce)))
 \<and> \<not> rose (fst (updates (-) 1 (Debouncer None w_bounce)))
 \<and> \<not> fell (fst (updates (-) 1 (Debouncer None w_bounce)))
 \<and> debounced_state (fst (updates (-) 4 (Debouncer None w_bounce)))
 \<and> \<not> rose (fst (updates (-) 4 (Debouncer None w_bounce)))
 \<and> \<not> fell (fst (updates (-) 4 (Debouncer None w_bounce)))"
proof -
  let ?d = "fst (Debouncer None w_bounce)"
  let ?w = "snd (Debouncer None w_bounce)"
  have d: "?d = \<lparr>state = 3, previous_time = 0, interval = 1 / 100\<rparr>"
    by (simp add: Debouncer_def self_f_def w_bounce_def set_state_def
        DEBOUNCED_STATE_def UNSTABLE_STATE_def)
  have w: "?w = w_bounce\<lparr>pin_reads := 1\<rparr>"
    by (simp add: Debouncer_def self_f_def w_bounce_def)
  have first: "sample_at ?w 0 \<noteq> unstable_state ?d"
    unfolding d w by (simp add: sample_at_def unstable_state_def w_bounce_def)
  have alt: "sample_at ?w 1 \<noteq> sample_at ?w 0" "sample_at ?w 2 \<noteq> sample_at ?w 1"
    "sample_at ?w 3 \<noteq> sample_at ?w 2"
    unfolding w by (simp_all add: sample_at_def w_bounce_def)
  have span: "now_at ?w 3 - now_at ?w 0 < interval ?d"
    unfolding d w by (simp add: now_at_def w_bounce_def)
  have bounce: "\<forall>j k. j < k \<and> k < 4 \<and> (\<forall>i. j < i \<and> i \<le> k \<longrightarrow> sample_at ?w i = sample_at ?w j)
                   \<longrightarrow> now_at ?w k - now_at ?w j < interval ?d"
  proof (intro allI impI)
    fix j k :: nat
    assume "j < k \<and> k < 4 \<and> (\<forall>i. j < i \<and> i \<le> k \<longrightarrow> sample_at ?w i = sample_at ?w j)"
    then have "real k < 4" by simp
    then show "now_at ?w k - now_at ?w j < interval ?d"
      unfolding d w by (simp add: now_at_def w_bounce_def)
  qed
  have old: "debounced_state ?d" unfolding d by (simp add: debounced_state_def)
  have T: "\<forall>m\<le>4. debounced_state (fst (updates (-) m (?d, ?w))) = debounced_state ?d
              \<and> (0 < m \<longrightarrow> \<not> rose (fst (updates (-) m (?d, ?w))) \<and> \<not> fell (fst (updates (-) m (?d, ?w))))"
    by (rule bounce_rejection [where fsub = "(-)", OF disjI1 [OF first] bounce])
  have c1: "debounced_state (fst (updates (-) 1 (Debouncer None w_bounce)))
      \<and> \<not> rose (fst (updates (-) 1 (Debouncer None w_bounce)))
      \<and> \<not> fell (fst (updates (-) 1 (Debouncer None w_bounce)))"
    using T [THEN spec, where x = 1] old by (simp del: updates.simps)
  have c4: "debounced_state (fst (updates (-) 4 (Debouncer None w_bounce)))
      \<and> \<not> rose (fst (updates (-) 4 (Debouncer None w_bounce)))
      \<and> \<not> fell (fst (updates (-) 4 (Debouncer None w_bounce)))"
    using T [THEN spec, where x = 4] old by (simp del: updates.simps)
  show ?thesis
    using first alt span old c1 c4 by blast
qed

text \<open>
  Claim C3 (timer restart on any raw change). In every state, an \<^verbatim>\<open>update\<close> call whose
  fresh raw sample differs from the stored unstable flag sets \<^verbatim>\<open>previous_time\<close> to the clock
  reading of that call and makes the unstable flag equal to the new sample; on that call the
  debounced value is left as it was and the changed flag is false. Nothing is assumed about
  the timer or about a settle in progress: any raw change restarts the timer.
\<close>

theorem update_restarts_timer_on_raw_change:
  assumes "sample_at w 0 \<noteq> unstable_state self"
  shows "previous_time (fst (update fsub (self, w))) = now_at w 0
       \<and> unstable_state (fst (update fsub (self, w))) = sample_at w 0
       \<and> debounced_state (fst (update fsub (self, w))) = debounced_state self
       \<and> \<not> changed_state (fst (update fsub (self, w)))"
  using assms
  by (simp add: update_previous_time update_unstable update_debounced update_changed)

theorem update_restarts_timer_on_raw_change_witness:
  "sample_at w_high 0 \<noteq> unstable_state d_fallen
   \<and> previous_time (fst (update (-) (d_fallen, w_high))) = 5
   \<and> unstable_state (fst (update (-) (d_fallen, w_high)))
   \<and> debounced_state (fst (update (-) (d_fallen, w_high)))
   \<and> \<not> changed_state (fst (update (-) (d_fallen, w_high)))"
  using update_restarts_timer_on_raw_change [where fsub = "(-)" and w = w_high and self = d_fallen] by (simp add: ex_defs)

text \<open>
  Claim C4 (acceptance condition). Take an \<^verbatim>\<open>update\<close> call whose fresh raw sample equals the
  stored unstable flag. If \<open>now - previous_time \<ge> interval\<close>, with the difference as the call
  computes it (\<open>fsub now previous_time\<close>), and the sample differs from the debounced value, the call sets the debounced value to the sample, sets the changed flag and
  sets \<^verbatim>\<open>previous_time\<close> to \<open>now\<close>, and a following call that reads the same sample does not
  report the edge again. If either condition fails, the debounced value and \<^verbatim>\<open>previous_time\<close>
  are unchanged and the changed flag is false.
\<close>

theorem update_acceptance_condition:
  assumes "sample_at w 0 = unstable_state self"
  shows "(interval self \<le> fsub (now_at w 0) (previous_time self) \<and> sample_at w 0 \<noteq> debounced_state self \<longrightarrow>
            debounced_state (fst (update fsub (self, w))) = sample_at w 0
          \<and> changed_state (fst (update fsub (self, w)))
          \<and> previous_time (fst (update fsub (self, w))) = now_at w 0
          \<and> (sample_at w 1 = sample_at w 0 \<longrightarrow> \<not> changed_state (fst (updates fsub 2 (self, w)))))
       \<and> (\<not> (interval self \<le> fsub (now_at w 0) (previous_time self) \<and> sample_at w 0 \<noteq> debounced_state self) \<longrightarrow>
            debounced_state (fst (update fsub (self, w))) = debounced_state self
          \<and> previous_time (fst (update fsub (self, w))) = previous_time self
          \<and> \<not> changed_state (fst (update fsub (self, w))))"
proof -
  obtain d' w' where eq: "update fsub (self, w) = (d', w')" by (cases "update fsub (self, w)")
  have w': "w' = w\<lparr>clock_reads := Suc (clock_reads w), pin_reads := Suc (pin_reads w)\<rparr>"
    using update_world [of fsub self w] by (simp add: eq)
  have s1: "sample_at w' 0 = sample_at w 1" by (simp add: w' sample_at_def)
  have d': "d' = fst (update fsub (self, w))" by (simp add: eq)
  have two: "updates fsub 2 (self, w) = update fsub (d', w')"
    by (simp add: numeral_2_eq_2 eq)
  have again: "sample_at w 1 = debounced_state d' \<Longrightarrow> \<not> changed_state (fst (updates fsub 2 (self, w)))"
    unfolding two by (simp add: update_changed s1)
  show ?thesis
    using assms again
    by (auto simp add: update_previous_time update_debounced update_changed d')
qed

theorem update_acceptance_condition_witness:
  "sample_at w_high 0 = unstable_state d_pending
   \<and> interval d_pending \<le> now_at w_high 0 - previous_time d_pending
   \<and> sample_at w_high 0 \<noteq> debounced_state d_pending
   \<and> debounced_state (fst (update (-) (d_pending, w_high)))
   \<and> changed_state (fst (update (-) (d_pending, w_high)))
   \<and> previous_time (fst (update (-) (d_pending, w_high))) = 5
   \<and> \<not> changed_state (fst (updates (-) 2 (d_pending, w_high)))"
  using update_acceptance_condition [where fsub = "(-)" and w = w_high and self = d_pending] by (simp add: ex_defs)

text \<open>
  Claim C5 (construction seeding). Constructing a Debouncer takes exactly one raw sample (the
  sample counter of the environment advances by one and the clock is not read) and yields a state whose debounced and unstable flags both equal that sample, whose
  changed flag is false and whose \<^verbatim>\<open>previous_time\<close> is 0. When the sample is true, \<^verbatim>\<open>value\<close>
  is true and \<^verbatim>\<open>rose\<close> and \<^verbatim>\<open>fell\<close> are false before any \<^verbatim>\<open>update\<close>.
\<close>

theorem Debouncer_seeds_flags:
  "(case Debouncer interval_arg w of (self, w') \<Rightarrow>
      debounced_state self = sample_at w 0
    \<and> unstable_state self = sample_at w 0
    \<and> \<not> changed_state self
    \<and> previous_time self = 0
    \<and> w' = w\<lparr>pin_reads := pin_reads w + 1\<rparr>
    \<and> (sample_at w 0 \<longrightarrow> value self \<and> \<not> rose self \<and> \<not> fell self))"
  by (simp add: value_def rose_def fell_def get_flags)
     (simp add: Debouncer_def self_f_def Let_def set_state_def
      DEBOUNCED_STATE_def UNSTABLE_STATE_def debounced_state_def unstable_state_def
      changed_state_def sample_at_def bit_or_iff split: option.splits)

theorem Debouncer_seeds_flags_witness:
  "sample_at w_high 0 \<and> value (fst (Debouncer None w_high)) \<and> \<not> rose (fst (Debouncer None w_high))
    \<and> \<not> fell (fst (Debouncer None w_high)) \<and> pin_reads (snd (Debouncer None w_high)) = 1"
  using Debouncer_seeds_flags [where interval_arg = None and w = w_high] by (auto simp add: ex_defs split: prod.splits)

text \<open>
  Claim C6 (edge-query formulas). In every state \<^verbatim>\<open>rose\<close> is the debounced flag AND the changed
  flag, and \<^verbatim>\<open>fell\<close> is (NOT the debounced flag) AND the changed flag, read from the packed
  integer. Equivalently, after an \<^verbatim>\<open>update\<close> call \<^verbatim>\<open>rose\<close> holds exactly when that call took the
  debounced value from false to true, and \<^verbatim>\<open>fell\<close> exactly when it took it from true to
  false.
\<close>

theorem rose_fell_formulas:
  "rose self = (debounced_state self \<and> changed_state self)
 \<and> fell self = (\<not> debounced_state self \<and> changed_state self)
 \<and> rose (fst (update fsub (self, w))) =
      (\<not> debounced_state self \<and> debounced_state (fst (update fsub (self, w))))
 \<and> fell (fst (update fsub (self, w))) =
      (debounced_state self \<and> \<not> debounced_state (fst (update fsub (self, w))))"
  by (auto simp add: rose_def fell_def get_flags update_debounced update_changed)

text \<open>
  Claim C7 (changed-flag reset). The changed flag after an \<^verbatim>\<open>update\<close> call holds exactly when
  the debounced value flipped during that call; the outcome of the call is the same whether the
  changed flag was set or clear before it (the flag is cleared before the state is looked at);
  and the flag is never true after two consecutive calls, because two consecutive calls
  never both flip the debounced value.
\<close>

theorem changed_state_cleared_each_update:
  "changed_state (fst (update fsub (self, w))) =
     (debounced_state (fst (update fsub (self, w))) \<noteq> debounced_state self)
 \<and> update fsub (set_state CHANGED_STATE self, w) = update fsub (unset_state CHANGED_STATE self, w)
 \<and> \<not> (changed_state (fst (update fsub (self, w))) \<and> changed_state (fst (update fsub (update fsub (self, w)))))"
proof -
  obtain d' w' where eq: "update fsub (self, w) = (d', w')" by (cases "update fsub (self, w)")
  have d': "d' = fst (update fsub (self, w))" by (simp add: eq)
  have a: "changed_state (fst (update fsub (self, w))) =
     (debounced_state (fst (update fsub (self, w))) \<noteq> debounced_state self)"
    by (auto simp add: update_debounced update_changed)
  have "update fsub (set_state CHANGED_STATE self, w)
      = update fsub (unset_state CHANGED_STATE (set_state CHANGED_STATE self), w)"
    by (simp only: update_unset_first)
  then have b: "update fsub (set_state CHANGED_STATE self, w) = update fsub (unset_state CHANGED_STATE self, w)"
    by (simp only: set_unset_CHANGED)
  have "changed_state d' \<Longrightarrow> unstable_state d' = debounced_state d'"
    unfolding d' by (auto simp add: update_debounced update_changed update_unstable)
  then have c: "\<not> (changed_state d' \<and> changed_state (fst (update fsub (d', w'))))"
    by (auto simp add: update_changed)
  show ?thesis using a b c by (simp add: eq)
qed

text \<open>
  Claim C8 (unstable-state resynchronisation). After every \<^verbatim>\<open>update\<close> call, from any state and
  whatever the timer says, the unstable flag equals the raw sample read during that call; so
  after \<open>n + 1\<close> calls it equals the sample of the last of them.
\<close>

theorem unstable_state_resynchronised:
  "unstable_state (fst (update fsub (self, w))) = sample_at w 0
 \<and> unstable_state (fst (updates fsub (Suc n) (self, w))) = sample_at w n"
proof -
  obtain d' w' where eq: "updates fsub n (self, w) = (d', w')" by (cases "updates fsub n (self, w)")
  have "w' = w\<lparr>clock_reads := clock_reads w + n, pin_reads := pin_reads w + n\<rparr>"
    using updates_world [of fsub n self w] by (simp add: eq)
  then have "sample_at w' 0 = sample_at w n" by (simp add: sample_at_def)
  then show ?thesis by (simp add: eq update_unstable)
qed

text \<open>
  Claim C9 (degenerate interval). The constructor stores any interval it is given, negative
  and zero included, without validation. With an interval that is zero or negative, an
  \<^verbatim>\<open>update\<close> call whose sample equals the unstable flag and differs from the debounced value
  accepts the transition at once, whenever the elapsed time that the call computes is not
  negative. And it is never negative in a run: when the subtraction gives a non-negative
  result for \<open>now \<ge> previous_time\<close> (exact subtraction does, and so does a correctly rounded
  one), the clock is non-decreasing and its first reading is not below the initial
  \<^verbatim>\<open>previous_time\<close> of 0, the elapsed-time test passes at every \<^verbatim>\<open>update\<close> call after
  construction with such an interval.
\<close>

theorem degenerate_interval_accepts:
  "interval (fst (Debouncer (Some i) w)) = i
 \<and> (interval self \<le> 0 \<and> 0 \<le> fsub (now_at w 0) (previous_time self)
      \<and> sample_at w 0 = unstable_state self \<and> sample_at w 0 \<noteq> debounced_state self \<longrightarrow>
      debounced_state (fst (update fsub (self, w))) = sample_at w 0
    \<and> changed_state (fst (update fsub (self, w))))
 \<and> ((\<forall>x y. y \<le> x \<longrightarrow> 0 \<le> fsub x y)
      \<and> i \<le> 0 \<and> (\<forall>k. clock w k \<le> clock w (Suc k)) \<and> 0 \<le> clock w (clock_reads w) \<longrightarrow>
      interval (fst (updates fsub n (Debouncer (Some i) w)))
        \<le> fsub (now_at (snd (Debouncer (Some i) w)) n)
                (previous_time (fst (updates fsub n (Debouncer (Some i) w)))))"
proof -
  let ?d = "fst (Debouncer (Some i) w)"
  let ?w = "snd (Debouncer (Some i) w)"
  have a: "interval ?d = i" by (simp add: Debouncer_fields)
  have b: "interval self \<le> 0 \<and> 0 \<le> fsub (now_at w 0) (previous_time self)
      \<and> sample_at w 0 = unstable_state self \<and> sample_at w 0 \<noteq> debounced_state self \<longrightarrow>
      debounced_state (fst (update fsub (self, w))) = sample_at w 0
    \<and> changed_state (fst (update fsub (self, w)))"
    by (auto simp add: update_debounced update_changed)
  have c: "interval (fst (updates fsub n (Debouncer (Some i) w)))
        \<le> fsub (now_at ?w n) (previous_time (fst (updates fsub n (Debouncer (Some i) w))))"
    if sign: "\<forall>x y. y \<le> x \<longrightarrow> 0 \<le> fsub x y" and neg: "i \<le> 0"
      and mono: "\<forall>k. clock w k \<le> clock w (Suc k)" and pos: "0 \<le> clock w (clock_reads w)"
  proof -
    have mono': "\<forall>k. clock ?w k \<le> clock ?w (Suc k)" using mono by (simp add: Debouncer_fields)
    have start: "previous_time ?d \<le> now_at ?w 0" using pos by (simp add: Debouncer_fields now_at_def)
    have "previous_time (fst (updates fsub n (?d, ?w))) \<le> now_at ?w n"
      by (rule previous_time_not_ahead [OF mono' start])
    then have "0 \<le> fsub (now_at ?w n) (previous_time (fst (updates fsub n (?d, ?w))))"
      using sign by blast
    moreover have "interval (fst (updates fsub n (?d, ?w))) = i"
      using step_interval [of fsub n ?d ?w] a by (simp del: updates.simps)
    ultimately show ?thesis using neg by (simp del: updates.simps)
  qed
  from a b c show ?thesis by blast
qed

theorem degenerate_interval_accepts_witness:
  "interval (fst (Debouncer (Some (- 1)) w_high)) = - 1
 \<and> interval d_pending_zero \<le> 0 \<and> 0 \<le> now_at w_high 0 - previous_time d_pending_zero
 \<and> sample_at w_high 0 = unstable_state d_pending_zero
 \<and> sample_at w_high 0 \<noteq> debounced_state d_pending_zero
 \<and> debounced_state (fst (update (-) (d_pending_zero, w_high)))
 \<and> changed_state (fst (update (-) (d_pending_zero, w_high)))
 \<and> (0::real) \<le> clock w_high (clock_reads w_high)
 \<and> clock w_high 0 \<le> clock w_high 1
 \<and> interval (fst (updates (-) 2 (Debouncer (Some (- 1)) w_high)))
        \<le> now_at (snd (Debouncer (Some (- 1)) w_high)) 2
          - previous_time (fst (updates (-) 2 (Debouncer (Some (- 1)) w_high)))"
proof -
  have sign: "\<forall>x y :: real. y \<le> x \<longrightarrow> 0 \<le> x - y" by simp
  have mono: "\<forall>k. clock w_high k \<le> clock w_high (Suc k)" by (simp add: w_high_def)
  have pos: "0 \<le> clock w_high (clock_reads w_high)" by (simp add: w_high_def)
  note T = degenerate_interval_accepts [where fsub = "(-)" and i = "- 1" and w = w_high
      and self = d_pending_zero and n = 2]
  have "interval (fst (updates (-) 2 (Debouncer (Some (- 1)) w_high)))
        \<le> now_at (snd (Debouncer (Some (- 1)) w_high)) 2
          - previous_time (fst (updates (-) 2 (Debouncer (Some (- 1)) w_high)))"
    using T sign mono pos by (simp del: updates.simps)
  moreover have "interval (fst (Debouncer (Some (- 1)) w_high)) = - 1
 \<and> interval d_pending_zero \<le> 0 \<and> 0 \<le> now_at w_high 0 - previous_time d_pending_zero
 \<and> sample_at w_high 0 = unstable_state d_pending_zero
 \<and> sample_at w_high 0 \<noteq> debounced_state d_pending_zero
 \<and> debounced_state (fst (update (-) (d_pending_zero, w_high)))
 \<and> changed_state (fst (update (-) (d_pending_zero, w_high)))
 \<and> (0::real) \<le> clock w_high (clock_reads w_high)
 \<and> clock w_high 0 \<le> clock w_high 1"
    using T by (simp add: ex_defs)
  ultimately show ?thesis by blast
qed

text \<open>
  Claim C10 (mutual exclusion of edges). \<^verbatim>\<open>rose\<close> and \<^verbatim>\<open>fell\<close> are never both true: in any
  state whatever, and so in every state reached by construction followed by any number of
  \<^verbatim>\<open>update\<close> calls.
\<close>

theorem rose_fell_exclusive:
  "\<not> (rose self \<and> fell self)
 \<and> \<not> (rose (fst (updates fsub n (Debouncer interval_arg w))) \<and> fell (fst (updates fsub n (Debouncer interval_arg w))))"
  by (simp add: rose_def fell_def)

end
